theory Spec2Isabelle
  imports Complex_Main
begin

section \<open>The stability scan of the CUTE notebook: eigenvector sign and perturbation\<close>

text \<open>
  The notebook is a driver for the TokaMaker engine of the OpenFUSIONToolkit. The engine
  itself (\<open>solve\<close>, \<open>eig_td\<close>, \<open>step_td\<close>, \<open>get_psi\<close>, \<open>set_psi\<close>, ...) is imported
  from an installed library; what the notebook computes on its own is, in every
  iteration of the scan,
  \<^verbatim>\<open>
    eig_vals, eig_vecs = mygs.eig_td(-1.E5,10,False)
    eig_sign = eig_vecs[0,mygs.r[:,1]>0.0][abs(eig_vecs[0,mygs.r[:,1]>0.0]).argmax()]
    modes.append(eig_vecs[0,:]*eig_sign)
    growth.append(eig_vals[0,0])
    psi_ic = psi0-0.01*eig_vecs[0,:]*(mygs.psi_bounds[1]-mygs.psi_bounds[0])/eig_sign
  \<close>
  The lines for \<open>eig_sign\<close>, the stored mode and \<open>psi_ic\<close> are embedded below (the
  line for \<open>growth\<close> reads \<open>eig_vals\<close> only and enters none of them). The values
  that the engine hands to them are parameters: the eigenvector matrix \<open>eig_vecs\<close>
  (one row per mode), the mesh nodes \<open>r\<close> (a node is its pair (R, Z), so column 1
  of \<open>mygs.r\<close> is \<open>snd\<close>), the flux \<open>psi0\<close> and the pair \<open>psi_bounds\<close>.

  The entries of these arrays are finite float64 numbers, here real numbers. The
  rounding of a finite result is not modelled: \<open>eig_sign\<close> only selects an entry, and
  the stored mode is the exact product. In \<open>psi_ic\<close> the results that are not finite
  numbers are modelled: a numpy division by zero and an overflow raise nothing and
  give \<open>inf\<close> or \<open>nan\<close>, which is the value \<open>None\<close> of an array entry, and every
  later operation of the expression keeps such an entry non-finite.
\<close>

subsection \<open>numpy operations used by the driver\<close>

datatype error = IndexError | ValueError

text \<open>\<open>a[0,:]\<close> of a two-dimensional array: IndexError when the array has no row.\<close>

definition row0 :: "real list list \<Rightarrow> error + real list" where
  "row0 a = (case a of [] \<Rightarrow> Inl IndexError | v # _ \<Rightarrow> Inr v)"

text \<open>\<open>r[:,1] > 0.0\<close>: the boolean mask of the nodes above the midplane.\<close>

definition zmask :: "(real \<times> real) list \<Rightarrow> bool list" where
  "zmask r = map (\<lambda>p. 0 < snd p) r"

text \<open>
  \<open>v[mask]\<close> with a boolean mask: the entries where the mask is True, in order;
  IndexError when the mask's length is not the array's. numpy checks the length only
  of a mask that is not empty: an empty mask selects nothing from any array.
\<close>

definition bool_index :: "real list \<Rightarrow> bool list \<Rightarrow> error + real list" where
  "bool_index v m =
     (if m = [] then Inr []
      else if length m \<noteq> length v then Inl IndexError
      else Inr (map fst (filter snd (zip v m))))"

text \<open>
  \<open>a.argmax()\<close>: the index of the first occurrence of the maximum; ValueError on an
  empty array. The loop carries the next index, the best index and the best value.
\<close>

fun argmax_aux :: "real list \<Rightarrow> nat \<Rightarrow> nat \<Rightarrow> real \<Rightarrow> nat" where
  "argmax_aux [] i best bv = best"
| "argmax_aux (x # xs) i best bv =
     (if bv < x then argmax_aux xs (Suc i) i x else argmax_aux xs (Suc i) best bv)"

definition argmax :: "real list \<Rightarrow> error + nat" where
  "argmax a = (case a of [] \<Rightarrow> Inl ValueError | x # xs \<Rightarrow> Inr (argmax_aux xs 1 0 x))"

text \<open>\<open>a[k]\<close> with a non-negative index.\<close>

definition item :: "real list \<Rightarrow> nat \<Rightarrow> error + real" where
  "item a k = (if k < length a then Inr (a ! k) else Inl IndexError)"

text \<open>
  The float64 result of an operation whose exact result is \<open>x\<close>: rounding to nearest
  gives \<open>inf\<close> from the magnitude \<open>2^1024 - 2^970\<close> on (half an ulp above the
  largest finite number \<open>2^1024 - 2^971\<close>), and a finite number below it.
\<close>

definition overflow_threshold :: real where
  "overflow_threshold = 2 ^ 1024 - 2 ^ 970"

definition fl :: "real \<Rightarrow> real option" where
  "fl x = (if \<bar>x\<bar> < overflow_threshold then Some x else None)"

text \<open>
  \<open>a * b\<close>: a non-finite factor gives a non-finite product (\<open>inf * 0\<close> is
  \<open>nan\<close>), and the product of finite factors may overflow.
\<close>

definition fmul :: "real option \<Rightarrow> real option \<Rightarrow> real option" where
  "fmul a b =
     (case a of None \<Rightarrow> None | Some x \<Rightarrow>
      (case b of None \<Rightarrow> None | Some y \<Rightarrow> fl (x * y)))"

text \<open>
  \<open>a / s\<close> for an array entry and a finite float64 scalar: no exception. A
  non-finite \<open>a\<close> stays non-finite, a zero divisor gives \<open>inf\<close> or \<open>nan\<close>, and
  the quotient of finite numbers may overflow.
\<close>

definition fdiv :: "real option \<Rightarrow> real \<Rightarrow> real option" where
  "fdiv a s =
     (case a of None \<Rightarrow> None | Some x \<Rightarrow> if s = 0 then None else fl (x / s))"

text \<open>
  \<open>x - q\<close> for a finite \<open>x\<close>: a non-finite \<open>q\<close> stays non-finite, and the
  difference of finite numbers may overflow.
\<close>

definition fsub :: "real \<Rightarrow> real option \<Rightarrow> real option" where
  "fsub x q = (case q of None \<Rightarrow> None | Some y \<Rightarrow> fl (x - y))"

text \<open>
  \<open>a - b\<close> for two one-dimensional arrays, with numpy's broadcasting: equal lengths, or
  one of them of length 1; ValueError otherwise.
\<close>

definition broadcast_sub :: "real list \<Rightarrow> real option list \<Rightarrow> error + real option list" where
  "broadcast_sub a b =
     (if length a = length b then Inr (map2 fsub a b)
      else if length a = 1 then Inr (map (fsub (hd a)) b)
      else if length b = 1 then Inr (map (\<lambda>x. fsub x (hd b)) a)
      else Inl ValueError)"

subsection \<open>The driver's lines\<close>

text \<open>
  \<open>eig_sign = eig_vecs[0,mask][abs(eig_vecs[0,mask]).argmax()]\<close> with
  \<open>mask = mygs.r[:,1]>0.0\<close>.
\<close>

definition eig_sign :: "real list list \<Rightarrow> (real \<times> real) list \<Rightarrow> error + real" where
  "eig_sign eig_vecs r =
     (case row0 eig_vecs of Inl e \<Rightarrow> Inl e | Inr v \<Rightarrow>
      (case bool_index v (zmask r) of Inl e \<Rightarrow> Inl e | Inr w \<Rightarrow>
       (case argmax (map abs w) of Inl e \<Rightarrow> Inl e | Inr k \<Rightarrow> item w k)))"

text \<open>The array appended to \<open>modes\<close>: \<open>eig_vecs[0,:]*eig_sign\<close>.\<close>

definition stored_mode :: "real list list \<Rightarrow> (real \<times> real) list \<Rightarrow> error + real list" where
  "stored_mode eig_vecs r =
     (case eig_sign eig_vecs r of Inl e \<Rightarrow> Inl e | Inr s \<Rightarrow>
      (case row0 eig_vecs of Inl e \<Rightarrow> Inl e | Inr v \<Rightarrow> Inr (map (\<lambda>x. x * s) v)))"

text \<open>
  \<open>psi_ic = psi0-0.01*eig_vecs[0,:]*(psi_bounds[1]-psi_bounds[0])/eig_sign\<close>, in
  Python's order: the products from the left (the second factor is the difference of
  the two bounds), then the quotient, then the difference.
\<close>

definition psi_ic ::
  "real list \<Rightarrow> real list list \<Rightarrow> (real \<times> real) list \<Rightarrow> real \<times> real \<Rightarrow> error + real option list" where
  "psi_ic psi0 eig_vecs r psi_bounds =
     (case eig_sign eig_vecs r of Inl e \<Rightarrow> Inl e | Inr s \<Rightarrow>
      (case row0 eig_vecs of Inl e \<Rightarrow> Inl e | Inr v \<Rightarrow>
         broadcast_sub psi0
           (map (\<lambda>x. fdiv (fmul (fmul (Some 0.01) (Some x))
                                  (fsub (snd psi_bounds) (Some (fst psi_bounds)))) s) v)))"

text \<open>
  The other sign of the leading eigenvector: the matrix with row 0 negated. It is not
  in the driver; it states what "the arbitrary sign returned by \<open>eig_td\<close>" means.
\<close>

definition neg_row0 :: "real list list \<Rightarrow> real list list" where
  "neg_row0 a = (case a of [] \<Rightarrow> [] | v # vs \<Rightarrow> map uminus v # vs)"

text \<open>
  The node that \<open>argmax\<close> selects, stated without the loop: a node above the
  midplane whose magnitude is the largest among the nodes above the midplane, and the
  first of these where several attain it (numpy returns the first occurrence).
\<close>

definition peak_node :: "real list \<Rightarrow> (real \<times> real) list \<Rightarrow> nat \<Rightarrow> bool" where
  "peak_node v r n \<longleftrightarrow>
     n < length v \<and> 0 < snd (r ! n) \<and>
     (\<forall>j \<in> set [0..<length v]. 0 < snd (r ! j) \<longrightarrow> \<bar>v ! j\<bar> \<le> \<bar>v ! n\<bar>) \<and>
     (\<forall>j \<in> set [0..<n]. 0 < snd (r ! j) \<longrightarrow> \<bar>v ! j\<bar> < \<bar>v ! n\<bar>)"

section \<open>Properties of the numpy operations\<close>

subsection \<open>\<open>argmax\<close> returns the first index of a maximum\<close>

lemma argmax_aux_spec:
  "argmax_aux xs i best bv = k \<Longrightarrow>
     (k = best \<and> (\<forall>x\<in>set xs. x \<le> bv)) \<or>
     (i \<le> k \<and> k < i + length xs \<and> bv < xs ! (k - i) \<and>
      (\<forall>x\<in>set xs. x \<le> xs ! (k - i)) \<and> (\<forall>j<k - i. xs ! j < xs ! (k - i)))"
proof (induction xs arbitrary: i best bv)
  case Nil
  then show ?case by simp
next
  case (Cons x xs)
  let ?M = "xs ! (k - Suc i)"
  have later: ?case
    if a: "Suc i \<le> k" "k < Suc i + length xs" "b < ?M" "\<forall>y\<in>set xs. y \<le> ?M"
          "\<forall>j<k - Suc i. xs ! j < ?M"
      and b: "bv \<le> b" "x \<le> b" for b
  proof -
    from a(1) have nth: "(x # xs) ! (k - i) = ?M"
      by (simp add: nth_Cons')
    have "(x # xs) ! j < ?M" if "j < k - i" for j
    proof (cases j)
      case 0
      with a(3) b(2) show ?thesis by simp
    next
      case (Suc j')
      with that a(1) have "j' < k - Suc i" by simp
      with a(5) Suc show ?thesis by simp
    qed
    moreover from a(3,4) b(2) have "\<forall>y\<in>set (x # xs). y \<le> ?M" by auto
    moreover from a(3) b(1) have "bv < ?M" by simp
    moreover from a(1,2) have "i \<le> k" "k < i + length (x # xs)" by simp_all
    ultimately show ?thesis unfolding nth by blast
  qed
  show ?case
  proof (cases "bv < x")
    case True
    with Cons.prems have "argmax_aux xs (Suc i) i x = k" by simp
    from Cons.IH[OF this] show ?thesis
    proof
      assume "k = i \<and> (\<forall>y\<in>set xs. y \<le> x)"
      with True show ?thesis by auto
    next
      assume "Suc i \<le> k \<and> k < Suc i + length xs \<and> x < ?M \<and>
              (\<forall>y\<in>set xs. y \<le> ?M) \<and> (\<forall>j<k - Suc i. xs ! j < ?M)"
      with True show ?thesis by (intro later[of x]) simp_all
    qed
  next
    case False
    with Cons.prems have "argmax_aux xs (Suc i) best bv = k" by simp
    from Cons.IH[OF this] show ?thesis
    proof
      assume "k = best \<and> (\<forall>y\<in>set xs. y \<le> bv)"
      with False show ?thesis by auto
    next
      assume "Suc i \<le> k \<and> k < Suc i + length xs \<and> bv < ?M \<and>
              (\<forall>y\<in>set xs. y \<le> ?M) \<and> (\<forall>j<k - Suc i. xs ! j < ?M)"
      with False show ?thesis by (intro later[of bv]) simp_all
    qed
  qed
qed

lemma argmax_Inr:
  assumes "argmax a = Inr k"
  shows "k < length a \<and> (\<forall>x\<in>set a. x \<le> a ! k) \<and> (\<forall>j<k. a ! j < a ! k)"
proof (cases a)
  case Nil
  with assms show ?thesis by (simp add: argmax_def)
next
  case (Cons x xs)
  with assms have "argmax_aux xs 1 0 x = k" by (simp add: argmax_def)
  from argmax_aux_spec[OF this] show ?thesis
  proof
    assume "k = 0 \<and> (\<forall>y\<in>set xs. y \<le> x)"
    with Cons show ?thesis by auto
  next
    assume a: "1 \<le> k \<and> k < 1 + length xs \<and> x < xs ! (k - 1) \<and>
               (\<forall>y\<in>set xs. y \<le> xs ! (k - 1)) \<and> (\<forall>j<k - 1. xs ! j < xs ! (k - 1))"
    then have nth: "(x # xs) ! k = xs ! (k - 1)" by (simp add: nth_Cons')
    have "(x # xs) ! j < xs ! (k - 1)" if "j < k" for j
    proof (cases j)
      case 0
      with a show ?thesis by simp
    next
      case (Suc j')
      with that a show ?thesis by simp
    qed
    with a Cons show ?thesis unfolding Cons nth by auto
  qed
qed

lemma argmax_Inl: "argmax a = Inl e \<longleftrightarrow> a = [] \<and> e = ValueError"
  by (cases a) (auto simp: argmax_def)

subsection \<open>Boolean-mask indexing keeps the masked entries, in order\<close>

lemma masked_nth:
  "k < length (map fst (filter snd xs)) \<Longrightarrow>
   \<exists>n<length xs. snd (xs ! n) \<and> fst (xs ! n) = map fst (filter snd xs) ! k \<and>
     (\<forall>j<n. snd (xs ! j) \<longrightarrow> (\<exists>k'<k. map fst (filter snd xs) ! k' = fst (xs ! j)))"
proof (induction xs arbitrary: k)
  case Nil
  then show ?case by simp
next
  case (Cons p xs)
  let ?w = "map fst (filter snd xs)"
  have step: ?case
    if n: "n < length xs" "snd (xs ! n)" "fst (xs ! n) = ?w ! k0"
          "\<forall>j<n. snd (xs ! j) \<longrightarrow> (\<exists>k'<k0. ?w ! k' = fst (xs ! j))"
      and w: "map fst (filter snd (p # xs)) ! k = ?w ! k0"
      and sh: "\<And>k'. k' < k0 \<Longrightarrow> \<exists>k''<k. map fst (filter snd (p # xs)) ! k'' = ?w ! k'"
      and hd: "snd p \<Longrightarrow> \<exists>k''<k. map fst (filter snd (p # xs)) ! k'' = fst p"
    for n k0
  proof -
    have "\<exists>k'<k. map fst (filter snd (p # xs)) ! k' = fst ((p # xs) ! j)"
      if "j < Suc n" "snd ((p # xs) ! j)" for j
    proof (cases j)
      case 0
      with that hd show ?thesis by simp
    next
      case (Suc j')
      with that n(4) obtain k' where "k' < k0" "?w ! k' = fst (xs ! j')" by auto
      with sh[of k'] Suc show ?thesis by auto
    qed
    with n(1,2,3) w show ?thesis
      by (intro exI[of _ "Suc n"]) simp
  qed
  show ?case
  proof (cases "snd p")
    case False
    with Cons.prems have "k < length ?w" by simp
    from Cons.IH[OF this] obtain n where
      "n < length xs" "snd (xs ! n)" "fst (xs ! n) = ?w ! k"
      "\<forall>j<n. snd (xs ! j) \<longrightarrow> (\<exists>k'<k. ?w ! k' = fst (xs ! j))" by blast
    then show ?thesis using False
      by (intro step[of n k]) auto
  next
    case True
    show ?thesis
    proof (cases k)
      case 0
      with True show ?thesis by (intro exI[of _ 0]) simp
    next
      case (Suc k0)
      with Cons.prems True have "k0 < length ?w" by simp
      from Cons.IH[OF this] obtain n where
        "n < length xs" "snd (xs ! n)" "fst (xs ! n) = ?w ! k0"
        "\<forall>j<n. snd (xs ! j) \<longrightarrow> (\<exists>k'<k0. ?w ! k' = fst (xs ! j))" by blast
      then show ?thesis using True Suc
      proof (intro step[of n k0])
        fix k' assume "k' < k0"
        with True Suc show "\<exists>k''<k. map fst (filter snd (p # xs)) ! k'' = ?w ! k'"
          by (intro exI[of _ "Suc k'"]) simp
      next
        from True Suc show "\<exists>k''<k. map fst (filter snd (p # xs)) ! k'' = fst p"
          by (intro exI[of _ 0]) simp
      qed simp_all
    qed
  qed
qed

lemma masked_set:
  assumes "length m = length v"
  shows "set (map fst (filter snd (zip v m))) = {v ! n | n. n < length v \<and> m ! n}"
proof (rule set_eqI)
  fix x
  have "x \<in> set (map fst (filter snd (zip v m))) \<longleftrightarrow> (x, True) \<in> set (zip v m)"
    by force
  also have "\<dots> \<longleftrightarrow> (\<exists>n. v ! n = x \<and> m ! n = True \<and> n < length v \<and> n < length m)"
    by (simp add: in_set_zip)
  also have "\<dots> \<longleftrightarrow> x \<in> {v ! n | n. n < length v \<and> m ! n}"
    using assms by auto
  finally show "x \<in> set (map fst (filter snd (zip v m))) \<longleftrightarrow> x \<in> {v ! n | n. n < length v \<and> m ! n}" .
qed

lemma masked_neg:
  "map fst (filter snd (zip (map uminus v) m)) = map uminus (map fst (filter snd (zip v (m::bool list))))"
  by (induction v arbitrary: m) (auto simp: zip_Cons1 split: list.splits)


section \<open>The eigenvector sign\<close>

subsection \<open>Negating the leading eigenvector\<close>

lemma bool_index_neg:
  "bool_index (map uminus v) m =
     (case bool_index v m of Inl e \<Rightarrow> Inl e | Inr w \<Rightarrow> Inr (map uminus w))"
  by (simp add: bool_index_def masked_neg)

lemma argmax_abs_neg: "argmax (map abs (map uminus (w::real list))) = argmax (map abs w)"
proof -
  have "map abs (map uminus w) = map abs w" by simp
  then show ?thesis by (rule arg_cong)
qed

lemma item_neg:
  "item (map uminus w) k = (case item w k of Inl e \<Rightarrow> Inl e | Inr s \<Rightarrow> Inr (- s))"
  by (simp add: item_def)

lemma row0_neg:
  "row0 (neg_row0 a) = (case row0 a of Inl e \<Rightarrow> Inl e | Inr v \<Rightarrow> Inr (map uminus v))"
  by (cases a) (simp_all add: row0_def neg_row0_def)

lemma eig_sign_neg:
  "eig_sign (neg_row0 a) r =
     (case eig_sign a r of Inl e \<Rightarrow> Inl e | Inr s \<Rightarrow> Inr (- s))"
proof (cases "row0 a")
  case (Inl e)
  then show ?thesis by (simp add: eig_sign_def row0_neg)
next
  case v: (Inr v)
  show ?thesis
  proof (cases "bool_index v (zmask r)")
    case (Inl e)
    with v show ?thesis by (simp add: eig_sign_def row0_neg bool_index_neg)
  next
    case w: (Inr w)
    show ?thesis
    proof (cases "argmax (map abs w)")
      case (Inl e)
      with v w show ?thesis
        by (simp add: eig_sign_def row0_neg bool_index_neg argmax_abs_neg del: map_map)
    next
      case (Inr k)
      with v w show ?thesis
        by (simp add: eig_sign_def row0_neg bool_index_neg argmax_abs_neg item_neg del: map_map)
    qed
  qed
qed

lemma stored_mode_neg: "stored_mode (neg_row0 a) r = stored_mode a r"
proof (cases "eig_sign a r")
  case (Inl e)
  then show ?thesis by (simp add: stored_mode_def eig_sign_neg)
next
  case s: (Inr s)
  show ?thesis
  proof (cases "row0 a")
    case (Inl e)
    with s show ?thesis by (simp add: stored_mode_def eig_sign_neg row0_neg)
  next
    case (Inr v)
    with s show ?thesis by (simp add: stored_mode_def eig_sign_neg row0_neg)
  qed
qed

lemma fl_neg: "fl (- x) = map_option uminus (fl x)"
  by (simp add: fl_def)

lemma fmul_neg: "fmul (Some c) (Some (- x)) = map_option uminus (fmul (Some c) (Some x))"
  by (simp add: fmul_def fl_neg)

lemma fmul_neg_left: "fmul (map_option uminus a) d = map_option uminus (fmul a d)"
  by (cases a; cases d) (simp_all add: fmul_def fl_neg)

lemma fdiv_neg_neg: "fdiv (map_option uminus a) (- s) = fdiv a s"
  by (cases a) (simp_all add: fdiv_def)

lemma fdiv_neg: "fdiv (fmul (fmul (Some c) (Some (- x))) d) (- s) = fdiv (fmul (fmul (Some c) (Some x)) d) s"
  by (simp only: fmul_neg fmul_neg_left fdiv_neg_neg)

lemma psi_ic_neg: "psi_ic psi0 (neg_row0 a) r pb = psi_ic psi0 a r pb"
proof (cases "eig_sign a r")
  case (Inl e)
  then show ?thesis by (simp add: psi_ic_def eig_sign_neg)
next
  case s: (Inr s)
  show ?thesis
  proof (cases "row0 a")
    case (Inl e)
    with s show ?thesis by (simp add: psi_ic_def eig_sign_neg row0_neg)
  next
    case v: (Inr v)
    have "map (\<lambda>x. fdiv (fmul (fmul (Some 0.01) (Some x)) (fsub (snd pb) (Some (fst pb)))) (- s))
            (map uminus v)
          = map (\<lambda>x. fdiv (fmul (fmul (Some 0.01) (Some x)) (fsub (snd pb) (Some (fst pb)))) s) v"
      unfolding map_map comp_def fdiv_neg ..
    with s v show ?thesis by (simp only: psi_ic_def eig_sign_neg row0_neg sum.case)
  qed
qed

subsection \<open>Which entry \<open>eig_sign\<close> is\<close>

lemma eig_sign_peak:
  assumes s: "eig_sign a r = Inr s" and v: "row0 a = Inr v"
  shows "length r = length v \<and>
         (\<exists>n<length v. 0 < snd (r ! n) \<and> v ! n = s \<and>
            (\<forall>j<n. 0 < snd (r ! j) \<longrightarrow> \<bar>v ! j\<bar> < \<bar>s\<bar>)) \<and>
         (\<forall>j<length v. 0 < snd (r ! j) \<longrightarrow> \<bar>v ! j\<bar> \<le> \<bar>s\<bar>)"
proof -
  let ?m = "zmask r"
  let ?w = "map fst (filter snd (zip v ?m))"
  from s v have len: "length ?m = length v"
    by (auto simp: eig_sign_def bool_index_def argmax_def split: if_splits)
  from s v have "?m \<noteq> []"
    by (auto simp: eig_sign_def bool_index_def argmax_def)
  with len s v obtain k where k: "argmax (map abs ?w) = Inr k" and it: "item ?w k = Inr s"
    by (auto simp: eig_sign_def bool_index_def split: sum.splits)
  from argmax_Inr[OF k] have kl: "k < length ?w"
    and mx: "\<forall>x\<in>set ?w. \<bar>x\<bar> \<le> \<bar>?w ! k\<bar>"
    and fst: "\<forall>j<k. \<bar>?w ! j\<bar> < \<bar>?w ! k\<bar>"
    by auto
  from it kl have sk: "?w ! k = s" by (simp add: item_def)
  have zm: "\<And>j. j < length v \<Longrightarrow> ?m ! j = (0 < snd (r ! j))"
    using len by (simp add: zmask_def)
  from masked_nth[OF kl] obtain n where n: "n < length (zip v ?m)" "snd (zip v ?m ! n)"
    "fst (zip v ?m ! n) = ?w ! k"
    "\<forall>j<n. snd (zip v ?m ! j) \<longrightarrow> (\<exists>k'<k. ?w ! k' = fst (zip v ?m ! j))"
    by blast
  from n(1) len have nl: "n < length v" by simp
  from n(2,3) nl len sk zm have nn: "0 < snd (r ! n)" "v ! n = s" by simp_all
  have first: "\<bar>v ! j\<bar> < \<bar>s\<bar>" if "j < n" "0 < snd (r ! j)" for j
  proof -
    from that nl len zm have "snd (zip v ?m ! j)" "fst (zip v ?m ! j) = v ! j" by simp_all
    with n(4) that(1) obtain k' where "k' < k" "?w ! k' = v ! j" by auto
    with fst sk show ?thesis by auto
  qed
  have "\<bar>v ! j\<bar> \<le> \<bar>s\<bar>" if "j < length v" "0 < snd (r ! j)" for j
  proof -
    from that zm have "v ! j \<in> set ?w" unfolding masked_set[OF len] by auto
    from bspec[OF mx this] have "\<bar>v ! j\<bar> \<le> \<bar>?w ! k\<bar>" .
    then show ?thesis unfolding sk .
  qed
  moreover from nl nn first
  have "\<exists>n<length v. 0 < snd (r ! n) \<and> v ! n = s \<and> (\<forall>j<n. 0 < snd (r ! j) \<longrightarrow> \<bar>v ! j\<bar> < \<bar>s\<bar>)"
    by blast
  moreover from len have "length r = length v" by (simp add: zmask_def)
  ultimately show ?thesis by blast
qed

lemma eig_sign_Inr_iff:
  assumes v: "row0 a = Inr v" and len: "length r = length v"
  shows "(\<exists>s. eig_sign a r = Inr s) \<longleftrightarrow> (\<exists>n<length v. 0 < snd (r ! n))"
proof
  assume "\<exists>s. eig_sign a r = Inr s"
  then obtain s where "eig_sign a r = Inr s" ..
  from eig_sign_peak[OF this v] show "\<exists>n<length v. 0 < snd (r ! n)" by blast
next
  let ?m = "zmask r"
  let ?w = "map fst (filter snd (zip v ?m))"
  from len have lm: "length ?m = length v" by (simp add: zmask_def)
  assume "\<exists>n<length v. 0 < snd (r ! n)"
  then obtain n where "n < length v" "0 < snd (r ! n)" by blast
  with len have "v ! n \<in> {v ! n | n. n < length v \<and> ?m ! n}" by (auto simp: zmask_def)
  then have "v ! n \<in> set ?w" unfolding masked_set[OF lm] .
  then have "0 < length ?w" by (rule length_pos_if_in_set)
  then have ne: "map abs ?w \<noteq> []" by (simp del: length_map)
  then obtain k where k: "argmax (map abs ?w) = Inr k"
    by (cases "argmax (map abs ?w)") (auto simp: argmax_Inl)
  from argmax_Inr[OF k] have "k < length ?w" by simp
  moreover from ne have "?m \<noteq> []" by auto
  ultimately show "\<exists>s. eig_sign a r = Inr s" using k v lm
    by (simp add: eig_sign_def bool_index_def item_def)
qed

lemma peak_node_iff:
  "peak_node v r n \<longleftrightarrow>
     n < length v \<and> 0 < snd (r ! n) \<and>
     (\<forall>j<length v. 0 < snd (r ! j) \<longrightarrow> \<bar>v ! j\<bar> \<le> \<bar>v ! n\<bar>) \<and>
     (\<forall>j<n. 0 < snd (r ! j) \<longrightarrow> \<bar>v ! j\<bar> < \<bar>v ! n\<bar>)"
  unfolding peak_node_def Ball_def set_upt atLeastLessThan_iff by simp

lemma peak_node_less:
  assumes "peak_node v r n" and "peak_node v r n'" and "n < n'"
  shows False
proof -
  from assms(1) have "0 < snd (r ! n)" and "n < length v"
    unfolding peak_node_iff by blast+
  with assms(2,3) have "\<bar>v ! n\<bar> < \<bar>v ! n'\<bar>" unfolding peak_node_iff by blast
  moreover from assms(2) have "0 < snd (r ! n')" and "n' < length v"
    unfolding peak_node_iff by blast+
  with assms(1) have "\<bar>v ! n'\<bar> \<le> \<bar>v ! n\<bar>" unfolding peak_node_iff by blast
  ultimately show False by simp
qed

lemma peak_node_unique:
  assumes "peak_node v r n" and "peak_node v r n'"
  shows "n' = n"
proof (rule ccontr)
  assume "n' \<noteq> n"
  then consider "n < n'" | "n' < n" by linarith
  then show False
    using peak_node_less[OF assms] peak_node_less[OF assms(2,1)] by cases
qed


lemma eig_sign_peak_node:
  assumes s: "eig_sign a r = Inr s" and v: "row0 a = Inr v"
  shows "\<exists>n. peak_node v r n \<and> v ! n = s"
proof -
  from eig_sign_peak[OF s v] obtain n where
    n: "n < length v" "0 < snd (r ! n)" "v ! n = s"
       "\<forall>j<n. 0 < snd (r ! j) \<longrightarrow> \<bar>v ! j\<bar> < \<bar>s\<bar>"
    and mx: "\<forall>j<length v. 0 < snd (r ! j) \<longrightarrow> \<bar>v ! j\<bar> \<le> \<bar>s\<bar>"
    by blast
  then have "peak_node v r n" unfolding peak_node_iff by blast
  with n(3) show ?thesis by blast
qed

lemma stored_mode_at_peak:
  assumes s: "eig_sign a r = Inr s"
  shows "\<exists>v m n. row0 a = Inr v \<and> stored_mode a r = Inr m \<and> peak_node v r n \<and>
           (\<forall>n'. peak_node v r n' \<longrightarrow> n' = n) \<and> v ! n = s \<and> m ! n = s\<^sup>2 \<and> 0 \<le> m ! n"
proof -
  from s obtain v where v: "row0 a = Inr v"
    by (cases "row0 a") (simp_all add: eig_sign_def)
  with s have m: "stored_mode a r = Inr (map (\<lambda>x. x * s) v)"
    by (simp add: stored_mode_def)
  from eig_sign_peak_node[OF s v] obtain n where n: "peak_node v r n" "v ! n = s" by blast
  then have "n < length v" unfolding peak_node_iff by blast
  with n(2) have sq: "map (\<lambda>x. x * s) v ! n = s\<^sup>2" by (simp add: power2_eq_square)
  then have nn: "0 \<le> map (\<lambda>x. x * s) v ! n" by (simp only: zero_le_power2)
  have un: "\<forall>n'. peak_node v r n' \<longrightarrow> n' = n"
    using peak_node_unique[OF n(1)] by blast
  from v m n un sq nn show ?thesis by blast
qed

subsection \<open>Independence of the eigenvector's sign\<close>

text \<open>
  Claim C9. In a scan iteration, replacing the leading eigenvector \<open>eig_vecs[0]\<close> by
  its negative flips \<open>eig_sign\<close> and changes neither the stored mode
  \<open>eig_vecs[0]*eig_sign\<close> nor the perturbed initial condition \<open>psi_ic\<close>; this
  includes the runs that raise (the same exception either way) and the entries that
  are not finite. Whenever \<open>eig_sign\<close> is computed, there is exactly one node of
  maximum magnitude among the nodes with Z > 0 (the first, where several attain the
  maximum); the eigenvector's value there is \<open>eig_sign\<close>, and the stored mode's value
  there is the square of \<open>eig_sign\<close>, hence not negative.
\<close>

theorem sign_canonicalization:
  "eig_sign (neg_row0 eig_vecs) r =
     (case eig_sign eig_vecs r of Inl e \<Rightarrow> Inl e | Inr s \<Rightarrow> Inr (- s))
   \<and> stored_mode (neg_row0 eig_vecs) r = stored_mode eig_vecs r
   \<and> psi_ic psi0 (neg_row0 eig_vecs) r psi_bounds = psi_ic psi0 eig_vecs r psi_bounds
   \<and> (\<forall>s. eig_sign eig_vecs r = Inr s \<longrightarrow>
        (\<exists>v m n. row0 eig_vecs = Inr v \<and> stored_mode eig_vecs r = Inr m \<and>
           peak_node v r n \<and> (\<forall>n'. peak_node v r n' \<longrightarrow> n' = n) \<and>
           v ! n = s \<and> m ! n = s\<^sup>2 \<and> 0 \<le> m ! n))"
proof (intro conjI allI impI)
  show "eig_sign (neg_row0 eig_vecs) r =
     (case eig_sign eig_vecs r of Inl e \<Rightarrow> Inl e | Inr s \<Rightarrow> Inr (- s))"
    by (rule eig_sign_neg)
  show "stored_mode (neg_row0 eig_vecs) r = stored_mode eig_vecs r"
    by (rule stored_mode_neg)
  show "psi_ic psi0 (neg_row0 eig_vecs) r psi_bounds = psi_ic psi0 eig_vecs r psi_bounds"
    by (rule psi_ic_neg)
next
  fix s assume "eig_sign eig_vecs r = Inr s"
  then show "\<exists>v m n. row0 eig_vecs = Inr v \<and> stored_mode eig_vecs r = Inr m \<and>
           peak_node v r n \<and> (\<forall>n'. peak_node v r n' \<longrightarrow> n' = n) \<and>
           v ! n = s \<and> m ! n = s\<^sup>2 \<and> 0 \<le> m ! n"
    by (rule stored_mode_at_peak)
qed

theorem sign_canonicalization_witness:
  "eig_sign [[1, -3, -2], [5, 5, 5]] [(1, 1), (1, -1), (1, 2)] = Inr (- 2)
   \<and> eig_sign (neg_row0 [[1, -3, -2], [5, 5, 5]]) [(1, 1), (1, -1), (1, 2)] = Inr 2
   \<and> stored_mode (neg_row0 [[1, -3, -2], [5, 5, 5]]) [(1, 1), (1, -1), (1, 2)] = Inr [- 2, 6, 4]
   \<and> psi_ic [10, 20, 30] (neg_row0 [[1, -3, -2], [5, 5, 5]]) [(1, 1), (1, -1), (1, 2)] (0, 100)
       = Inr [Some (21 / 2), Some (37 / 2), Some 29]
   \<and> (\<exists>v m n. row0 [[1, -3, -2], [5, 5, 5]] = Inr v \<and>
          stored_mode [[1, -3, -2], [5, 5, 5]] [(1, 1), (1, -1), (1, 2)] = Inr m \<and>
          peak_node v [(1, 1), (1, -1), (1, 2)] n \<and> v ! n = - 2 \<and> m ! n = 4)"
proof -
  let ?E = "[[1, -3, -2], [5, 5, 5]] :: real list list"
  let ?r = "[(1, 1), (1, -1), (1, 2)] :: (real \<times> real) list"
  have s: "eig_sign ?E ?r = Inr (- 2)"
    by (simp add: eig_sign_def row0_def bool_index_def zmask_def argmax_def item_def)
  have m: "stored_mode ?E ?r = Inr [- 2, 6, 4]"
    by (simp add: stored_mode_def s row0_def)
  have p: "psi_ic [10, 20, 30] ?E ?r (0, 100) = Inr [Some (21 / 2), Some (37 / 2), Some 29]"
    by (simp add: psi_ic_def s row0_def broadcast_sub_def fdiv_def fmul_def fsub_def fl_def
        overflow_threshold_def)
  note t = sign_canonicalization[of ?E ?r "[10, 20, 30]" "(0, 100)"]
  from t have "eig_sign (neg_row0 ?E) ?r =
      (case eig_sign ?E ?r of Inl e \<Rightarrow> Inl e | Inr s \<Rightarrow> Inr (- s))"
    by (rule conjunct1)
  then have t1: "eig_sign (neg_row0 ?E) ?r = Inr 2" unfolding s by simp
  from t have "stored_mode (neg_row0 ?E) ?r = stored_mode ?E ?r"
    by (elim conjE)
  then have t2: "stored_mode (neg_row0 ?E) ?r = Inr [- 2, 6, 4]" unfolding m .
  from t have "psi_ic [10, 20, 30] (neg_row0 ?E) ?r (0, 100) = psi_ic [10, 20, 30] ?E ?r (0, 100)"
    by (elim conjE)
  then have t3: "psi_ic [10, 20, 30] (neg_row0 ?E) ?r (0, 100)
      = Inr [Some (21 / 2), Some (37 / 2), Some 29]" unfolding p .
  from t have "\<forall>s. eig_sign ?E ?r = Inr s \<longrightarrow>
        (\<exists>v m n. row0 ?E = Inr v \<and> stored_mode ?E ?r = Inr m \<and>
           peak_node v ?r n \<and> (\<forall>n'. peak_node v ?r n' \<longrightarrow> n' = n) \<and>
           v ! n = s \<and> m ! n = s\<^sup>2 \<and> 0 \<le> m ! n)"
    by (elim conjE)
  with s obtain v m' n where "row0 ?E = Inr v" "stored_mode ?E ?r = Inr m'"
    "peak_node v ?r n" "v ! n = - 2" "m' ! n = (- 2)\<^sup>2"
    by blast
  then have t4: "\<exists>v m n. row0 ?E = Inr v \<and> stored_mode ?E ?r = Inr m \<and>
          peak_node v ?r n \<and> v ! n = - 2 \<and> m ! n = 4"
    by (intro exI[of _ v] exI[of _ m'] exI[of _ n]) simp
  from s t1 t2 t3 t4 show ?thesis by (intro conjI)
qed

section \<open>The division by \<open>eig_sign\<close>\<close>

subsection \<open>When \<open>eig_sign\<close> is not zero\<close>

lemma eig_sign_nonzero_iff:
  assumes v: "row0 a = Inr v" and len: "length r = length v"
  shows "(\<exists>s. eig_sign a r = Inr s \<and> s \<noteq> 0) \<longleftrightarrow>
         (\<exists>n<length v. 0 < snd (r ! n) \<and> v ! n \<noteq> 0)"
proof
  assume "\<exists>s. eig_sign a r = Inr s \<and> s \<noteq> 0"
  then obtain s where s: "eig_sign a r = Inr s" "s \<noteq> 0" by blast
  from eig_sign_peak[OF s(1) v] obtain n where "n < length v" "0 < snd (r ! n)" "v ! n = s"
    by blast
  with s(2) show "\<exists>n<length v. 0 < snd (r ! n) \<and> v ! n \<noteq> 0" by blast
next
  assume "\<exists>n<length v. 0 < snd (r ! n) \<and> v ! n \<noteq> 0"
  then obtain n where n: "n < length v" "0 < snd (r ! n)" "v ! n \<noteq> 0" by blast
  then have "\<exists>n<length v. 0 < snd (r ! n)" by blast
  with eig_sign_Inr_iff[OF v len] obtain s where s: "eig_sign a r = Inr s" by blast
  from eig_sign_peak[OF s v] n(1,2) have "\<bar>v ! n\<bar> \<le> \<bar>s\<bar>" by blast
  with n(3) have "s \<noteq> 0" by auto
  with s show "\<exists>s. eig_sign a r = Inr s \<and> s \<noteq> 0" by blast
qed

subsection \<open>What a zero \<open>eig_sign\<close> does to \<open>psi_ic\<close>\<close>

lemma fdiv_zero: "fdiv a 0 = None"
  by (cases a) (simp_all add: fdiv_def)

lemma map2_fsub_None:
  "length p = n \<Longrightarrow> map2 fsub p (replicate n None) = replicate n None"
proof (induction p arbitrary: n)
  case Nil
  then show ?case by simp
next
  case (Cons x p)
  then obtain n' where "n = Suc n'" "length p = n'" by (cases n) auto
  with Cons.IH[of n'] show ?case by (simp add: fsub_def)
qed

lemma psi_ic_zero_sign:
  assumes v: "row0 a = Inr v" and len: "length psi0 = length v"
    and z: "eig_sign a r = Inr 0"
  shows "psi_ic psi0 a r pb = Inr (replicate (length v) None)"
proof -
  have "map (\<lambda>x. fdiv (fmul (fmul (Some 0.01) (Some x)) (fsub (snd pb) (Some (fst pb)))) 0) v
        = replicate (length v) None"
    unfolding fdiv_zero by (rule map_replicate_const)
  with v z have "psi_ic psi0 a r pb = broadcast_sub psi0 (replicate (length v) None)"
    by (simp add: psi_ic_def)
  also from len have "\<dots> = Inr (map2 fsub psi0 (replicate (length v) None))"
    by (simp add: broadcast_sub_def)
  also from len have "\<dots> = Inr (replicate (length v) None)"
    by (simp only: map2_fsub_None)
  finally show ?thesis .
qed

subsection \<open>The precondition of the perturbation\<close>

text \<open>
  Claim C10. The driver divides by \<open>eig_sign\<close> without a guard. For a leading
  eigenvector that is a field over the mesh nodes (one entry per node), the division is
  well defined, that is, \<open>eig_sign\<close> is computed and is not zero, if and only if the
  eigenvector is not zero at some node with Z > 0. Where the precondition fails with a
  computed \<open>eig_sign\<close>, that is, \<open>eig_sign\<close> is zero, nothing is raised and, for a flux
  \<open>psi0\<close> over the same nodes, every entry of \<open>psi_ic\<close> is \<open>inf\<close> or \<open>nan\<close>.
  (A nonzero \<open>eig_sign\<close> makes the division defined; it does not make every entry
  finite, since the quotient can still overflow.)
\<close>

theorem division_defined_iff:
  assumes "row0 eig_vecs = Inr v" and "length r = length v"
  shows "((\<exists>s. eig_sign eig_vecs r = Inr s \<and> s \<noteq> 0) \<longleftrightarrow>
            (\<exists>n<length v. 0 < snd (r ! n) \<and> v ! n \<noteq> 0))
       \<and> (length psi0 = length v \<longrightarrow> eig_sign eig_vecs r = Inr 0 \<longrightarrow>
            psi_ic psi0 eig_vecs r psi_bounds = Inr (replicate (length v) None))"
proof (intro conjI impI)
  show "(\<exists>s. eig_sign eig_vecs r = Inr s \<and> s \<noteq> 0) \<longleftrightarrow>
        (\<exists>n<length v. 0 < snd (r ! n) \<and> v ! n \<noteq> 0)"
    by (rule eig_sign_nonzero_iff[OF assms])
next
  assume "length psi0 = length v" and "eig_sign eig_vecs r = Inr 0"
  with assms(1) show "psi_ic psi0 eig_vecs r psi_bounds = Inr (replicate (length v) None)"
    by (rule psi_ic_zero_sign)
qed

theorem division_defined_iff_witness:
  "row0 [[1, -3, -2], [5, 5, 5]] = Inr [1, -3, -2]
   \<and> length [(1, 1), (1, -1), (1, 2 :: real) :: real \<times> real] = length [1, -3, -2 :: real]
   \<and> (\<exists>s. eig_sign [[1, -3, -2], [5, 5, 5]] [(1, 1), (1, -1), (1, 2)] = Inr s \<and> s \<noteq> 0)
   \<and> row0 [[0, -3, 0], [5, 5, 5]] = Inr [0, -3, 0]
   \<and> length [10, 20, 30 :: real] = length [0, -3, 0 :: real]
   \<and> eig_sign [[0, -3, 0], [5, 5, 5]] [(1, 1), (1, -1), (1, 2)] = Inr 0
   \<and> psi_ic [10, 20, 30] [[0, -3, 0], [5, 5, 5]] [(1, 1), (1, -1), (1, 2)] (0, 100)
       = Inr [None, None, None]"
proof -
  let ?E = "[[1, -3, -2], [5, 5, 5]] :: real list list"
  let ?v = "[1, -3, -2] :: real list"
  let ?Z = "[[0, -3, 0], [5, 5, 5]] :: real list list"
  let ?z = "[0, -3, 0] :: real list"
  let ?r = "[(1, 1), (1, -1), (1, 2)] :: (real \<times> real) list"
  let ?psi0 = "[10, 20, 30] :: real list"
  have h1: "row0 ?E = Inr ?v" by (simp add: row0_def)
  have h2: "length ?r = length ?v" by simp
  have node: "\<exists>n<length ?v. 0 < snd (?r ! n) \<and> ?v ! n \<noteq> 0"
    by (intro exI[of _ 0]) simp
  from division_defined_iff[OF h1 h2, of ?psi0 "(0, 100)"]
  have "(\<exists>s. eig_sign ?E ?r = Inr s \<and> s \<noteq> 0) \<longleftrightarrow>
     (\<exists>n<length ?v. 0 < snd (?r ! n) \<and> ?v ! n \<noteq> 0)"
    by (rule conjunct1)
  from this node have c1: "\<exists>s. eig_sign ?E ?r = Inr s \<and> s \<noteq> 0" by (rule iffD2)
  have g1: "row0 ?Z = Inr ?z" by (simp add: row0_def)
  have g2: "length ?r = length ?z" by simp
  have g3: "length ?psi0 = length ?z" by simp
  have g4: "eig_sign ?Z ?r = Inr 0"
    by (simp add: eig_sign_def row0_def bool_index_def zmask_def argmax_def item_def)
  from division_defined_iff[OF g1 g2, of ?psi0 "(0, 100)"]
  have "length ?psi0 = length ?z \<longrightarrow> eig_sign ?Z ?r = Inr 0 \<longrightarrow>
      psi_ic ?psi0 ?Z ?r (0, 100) = Inr (replicate (length ?z) None)"
    by (rule conjunct2)
  with g3 g4 have "psi_ic ?psi0 ?Z ?r (0, 100) = Inr (replicate (length ?z) None)"
    by blast
  then have c2: "psi_ic ?psi0 ?Z ?r (0, 100) = Inr [None, None, None]"
    by (simp add: numeral_3_eq_3)
  from h1 h2 c1 g1 g3 g4 c2 show ?thesis by (intro conjI)
qed

subsection \<open>How the precondition fails, and what a nonzero \<open>eig_sign\<close> does not give\<close>

lemma division_by_zero_example:
  "eig_sign [[0, -3, 0], [5, 5, 5]] [(1, 1), (1, -1), (1, 2)] = Inr 0
   \<and> stored_mode [[0, -3, 0], [5, 5, 5]] [(1, 1), (1, -1), (1, 2)] = Inr [0, 0, 0]
   \<and> psi_ic [10, 20, 30] [[0, -3, 0], [5, 5, 5]] [(1, 1), (1, -1), (1, 2)] (0, 100)
       = Inr [None, None, None]"
  by (simp add: psi_ic_def stored_mode_def eig_sign_def row0_def bool_index_def zmask_def
      argmax_def item_def broadcast_sub_def fdiv_def fmul_def fsub_def fl_def
      overflow_threshold_def)

lemma no_node_above_midplane_example:
  "eig_sign [[1, -3, 2], [5, 5, 5]] [(1, -1), (1, -1), (1, 0)] = Inl ValueError
   \<and> psi_ic [10, 20, 30] [[1, -3, 2], [5, 5, 5]] [(1, -1), (1, -1), (1, 0)] (0, 100)
       = Inl ValueError"
  by (simp add: psi_ic_def eig_sign_def row0_def bool_index_def zmask_def argmax_def)

lemma overflow_example:
  "eig_sign [[1 / 2 ^ 10, 2 ^ 1023]] [(1, 1), (1, -1)] = Inr (1 / 2 ^ 10)
   \<and> psi_ic [10, 20] [[1 / 2 ^ 10, 2 ^ 1023]] [(1, 1), (1, -1)] (0, 100) = Inr [Some 9, None]"
  by (simp add: psi_ic_def eig_sign_def row0_def bool_index_def zmask_def
      argmax_def item_def broadcast_sub_def fdiv_def fmul_def fsub_def fl_def
      overflow_threshold_def)

lemma empty_mask_example:
  "eig_sign [[1, -3, 2], [5, 5, 5]] [] = Inl ValueError
   \<and> eig_sign [[1, -3, 2], [5, 5, 5]] [(1, 1), (1, 2)] = Inl IndexError"
  by (simp add: eig_sign_def row0_def bool_index_def zmask_def argmax_def)

end
